theory Spec2Isabelle
  imports Main
begin

section \<open>Data model (interfaces/Token.ts, interfaces/AST.ts)\<close>

text \<open>
  A JavaScript string is a sequence of UTF-16 code units. The model takes the code
  units below 256, an Isabelle \<open>char\<close> each, so a \<open>string\<close> here is a JavaScript
  string all of whose code units are below 256; \<open>length\<close>, indexing and \<open>+=\<close>
  then agree with the source.
\<close>

datatype TokenType =
  KEYWORD | IDENTIFIER | STRING | SYMBOL | NUMBER | WHITESPACE | COMMENT | ERROR

record Token =
  type :: TokenType
  "value" :: string

record ColumnNode =
  type :: string
  name :: string
  dataType :: string
  constraints :: "string list"
  "note" :: "string option"

record TableNode =
  type :: string
  name :: string
  columns :: "ColumnNode list"
  "note" :: "string option"

record AST =
  tables :: "TableNode list"

text \<open>\<open>throw new Error(msg)\<close>: the only exception either class raises.\<close>

datatype error = Error (message: string)

text \<open>
  What a template literal \<open>${x}\<close> prints: the text itself, or \<open>undefined\<close> for a
  value that is not there; a token type prints as its own name.
\<close>

fun show_char :: "char option \<Rightarrow> string" where
  "show_char None = ''undefined''"
| "show_char (Some c) = [c]"

fun show_string :: "string option \<Rightarrow> string" where
  "show_string None = ''undefined''"
| "show_string (Some s) = s"

fun show_TokenType :: "TokenType \<Rightarrow> string" where
  "show_TokenType KEYWORD = ''KEYWORD''"
| "show_TokenType IDENTIFIER = ''IDENTIFIER''"
| "show_TokenType STRING = ''STRING''"
| "show_TokenType SYMBOL = ''SYMBOL''"
| "show_TokenType NUMBER = ''NUMBER''"
| "show_TokenType WHITESPACE = ''WHITESPACE''"
| "show_TokenType COMMENT = ''COMMENT''"
| "show_TokenType ERROR = ''ERROR''"

section \<open>The lexer (Lexer.ts)\<close>

record Lexer =
  input :: string
  position :: nat
  tokens :: "Token list"

text \<open>The constructor: the cursor at 0 and no token yet.\<close>

definition new_Lexer :: "string \<Rightarrow> Lexer" where
  "new_Lexer inp = \<lparr>input = inp, Lexer.position = 0, Lexer.tokens = []\<rparr>"

text \<open>
  The character tests receive \<open>this.peek()\<close>, which is \<open>undefined\<close> past the end of
  the input. A regular expression tests the text \<open>undefined\<close> then: it has no
  whitespace, and it is not one single letter or digit, so each test is false on
  \<open>None\<close>. Among the code units below 256, \<open>\s\<close> matches tab, line feed, vertical
  tab, form feed, carriage return, space and the no-break space.
\<close>

fun isLetter :: "char option \<Rightarrow> bool" where
  "isLetter None = False"
| "isLetter (Some c) =
     ((97 \<le> (of_char c :: nat) \<and> (of_char c :: nat) \<le> 122) \<or>
      (65 \<le> (of_char c :: nat) \<and> (of_char c :: nat) \<le> 90))"

fun isDigit :: "char option \<Rightarrow> bool" where
  "isDigit None = False"
| "isDigit (Some c) = (48 \<le> (of_char c :: nat) \<and> (of_char c :: nat) \<le> 57)"

fun isWhitespace :: "char option \<Rightarrow> bool" where
  "isWhitespace None = False"
| "isWhitespace (Some c) = ((of_char c :: nat) \<in> {9, 10, 11, 12, 13, 32, 160})"

definition isIdentifierChar :: "char option \<Rightarrow> bool" where
  "isIdentifierChar char = (isLetter char \<or> isDigit char \<or> char = Some CHR ''.'')"

definition advance :: "Lexer \<Rightarrow> Lexer" where
  "advance L = L\<lparr>Lexer.position := Lexer.position L + 1\<rparr>"

definition peek :: "Lexer \<Rightarrow> char option" where
  "peek L = (if Lexer.position L < length (input L)
             then Some (input L ! Lexer.position L) else None)"

definition push :: "Token \<Rightarrow> Lexer \<Rightarrow> Lexer" where
  "push t L = L\<lparr>Lexer.tokens := Lexer.tokens L @ [t]\<rparr>"

text \<open>The loop of \<open>tokenizeWhitespace\<close>, on the cursor and the local \<open>value\<close>.\<close>

function tokenizeWhitespace_loop :: "Lexer \<Rightarrow> string \<Rightarrow> Lexer \<times> string" where
  "tokenizeWhitespace_loop L val =
     (if isWhitespace (peek L)
      then tokenizeWhitespace_loop (advance L) (val @ show_char (peek L))
      else (L, val))"
  by pat_completeness auto
termination
  by (relation "measure (\<lambda>(L, val). length (input L) - Lexer.position L)")
     (auto simp: peek_def advance_def split: if_splits)

declare tokenizeWhitespace_loop.simps [simp del]

definition tokenizeWhitespace :: "Lexer \<Rightarrow> Lexer" where
  "tokenizeWhitespace L =
     (case tokenizeWhitespace_loop L [] of
        (L', val) \<Rightarrow> push \<lparr>Token.type = WHITESPACE, value = val\<rparr> L')"

text \<open>The loop of \<open>tokenizeIdentifierOrKeyword\<close>, and the keyword table as written.\<close>

function tokenizeIdentifier_loop :: "Lexer \<Rightarrow> string \<Rightarrow> Lexer \<times> string" where
  "tokenizeIdentifier_loop L identifier =
     (if isIdentifierChar (peek L)
      then tokenizeIdentifier_loop (advance L) (identifier @ show_char (peek L))
      else (L, identifier))"
  by pat_completeness auto
termination
  by (relation "measure (\<lambda>(L, identifier). length (input L) - Lexer.position L)")
     (auto simp: peek_def advance_def isIdentifierChar_def split: if_splits)

declare tokenizeIdentifier_loop.simps [simp del]

definition keywords_list :: "string list" where
  "keywords_list = [''Table'', ''Note'', ''ref'', ''not'', ''null'', ''unique'', ''default'',
               ''bool'', ''string'', ''int'', ''float'', ''bool'']"

definition tokenizeIdentifierOrKeyword :: "Lexer \<Rightarrow> Lexer" where
  "tokenizeIdentifierOrKeyword L =
     (case tokenizeIdentifier_loop L [] of
        (L', identifier) \<Rightarrow>
          if identifier \<in> set keywords_list
          then push \<lparr>Token.type = KEYWORD, value = identifier\<rparr> L'
          else push \<lparr>Token.type = IDENTIFIER, value = identifier\<rparr> L')"

text \<open>
  The loop of \<open>tokenizeString\<close>: it stops at the quote that opened the literal, or at
  the end of the input.
\<close>

function tokenizeString_loop :: "char option \<Rightarrow> Lexer \<Rightarrow> string \<Rightarrow> Lexer \<times> string" where
  "tokenizeString_loop quoteType L str =
     (if peek L \<noteq> quoteType \<and> Lexer.position L < length (input L)
      then tokenizeString_loop quoteType (advance L) (str @ show_char (peek L))
      else (L, str))"
  by pat_completeness auto
termination
  by (relation "measure (\<lambda>(quoteType, L, str). length (input L) - Lexer.position L)")
     (auto simp: advance_def)

declare tokenizeString_loop.simps [simp del]

definition tokenizeString :: "Lexer \<Rightarrow> Lexer" where
  "tokenizeString L =
     (let quoteType = peek L in
      case tokenizeString_loop quoteType (advance L) [] of
        (L', str) \<Rightarrow> push \<lparr>Token.type = STRING, value = str\<rparr> (advance L'))"

text \<open>\<open>"{}[]:,<>".includes(char)\<close>, false for \<open>undefined\<close>.\<close>

fun symbol_includes :: "char option \<Rightarrow> bool" where
  "symbol_includes None = False"
| "symbol_includes (Some c) = (c \<in> set ''{}[]:,<>'')"

text \<open>
  Each scanner leaves the input alone and, started on a character of its own class,
  moves the cursor forward: what the main loop needs in order to end.
\<close>

lemma tokenizeWhitespace_loop_input:
  "input (fst (tokenizeWhitespace_loop L val)) = input L"
proof (induction L val rule: tokenizeWhitespace_loop.induct)
  case (1 L val)
  then show ?case
    by (subst tokenizeWhitespace_loop.simps) (simp add: advance_def)
qed

lemma tokenizeWhitespace_loop_position:
  "Lexer.position L \<le> Lexer.position (fst (tokenizeWhitespace_loop L val))"
proof (induction L val rule: tokenizeWhitespace_loop.induct)
  case (1 L val)
  then show ?case
    by (subst tokenizeWhitespace_loop.simps) (auto simp: advance_def)
qed

lemma tokenizeWhitespace_loop_advances:
  assumes "isWhitespace (peek L)"
  shows "Lexer.position L < Lexer.position (fst (tokenizeWhitespace_loop L val))"
proof -
  have "tokenizeWhitespace_loop L val
          = tokenizeWhitespace_loop (advance L) (val @ show_char (peek L))"
    using assms by (subst tokenizeWhitespace_loop.simps) simp
  moreover have "Lexer.position (advance L)
          \<le> Lexer.position (fst (tokenizeWhitespace_loop (advance L) (val @ show_char (peek L))))"
    by (rule tokenizeWhitespace_loop_position)
  ultimately show ?thesis by (simp add: advance_def)
qed

lemma tokenizeIdentifier_loop_input:
  "input (fst (tokenizeIdentifier_loop L ident)) = input L"
proof (induction L ident rule: tokenizeIdentifier_loop.induct)
  case (1 L ident)
  then show ?case
    by (subst tokenizeIdentifier_loop.simps) (simp add: advance_def)
qed

lemma tokenizeIdentifier_loop_position:
  "Lexer.position L \<le> Lexer.position (fst (tokenizeIdentifier_loop L ident))"
proof (induction L ident rule: tokenizeIdentifier_loop.induct)
  case (1 L ident)
  then show ?case
    by (subst tokenizeIdentifier_loop.simps) (auto simp: advance_def)
qed

lemma tokenizeIdentifier_loop_advances:
  assumes "isIdentifierChar (peek L)"
  shows "Lexer.position L < Lexer.position (fst (tokenizeIdentifier_loop L ident))"
proof -
  have "tokenizeIdentifier_loop L ident
          = tokenizeIdentifier_loop (advance L) (ident @ show_char (peek L))"
    using assms by (subst tokenizeIdentifier_loop.simps) simp
  moreover have "Lexer.position (advance L)
          \<le> Lexer.position (fst (tokenizeIdentifier_loop (advance L) (ident @ show_char (peek L))))"
    by (rule tokenizeIdentifier_loop_position)
  ultimately show ?thesis by (simp add: advance_def)
qed

lemma tokenizeString_loop_input:
  "input (fst (tokenizeString_loop q L str)) = input L"
proof (induction q L str rule: tokenizeString_loop.induct)
  case (1 q L str)
  then show ?case
    by (subst tokenizeString_loop.simps) (simp add: advance_def)
qed

lemma tokenizeString_loop_position:
  "Lexer.position L \<le> Lexer.position (fst (tokenizeString_loop q L str))"
proof (induction q L str rule: tokenizeString_loop.induct)
  case (1 q L str)
  then show ?case
    by (subst tokenizeString_loop.simps) (auto simp: advance_def)
qed

lemma tokenizeWhitespace_input: "input (tokenizeWhitespace L) = input L"
  using tokenizeWhitespace_loop_input [of L "[]"]
  by (auto simp: tokenizeWhitespace_def push_def split: prod.splits)

lemma tokenizeWhitespace_advances:
  "isWhitespace (peek L) \<Longrightarrow> Lexer.position L < Lexer.position (tokenizeWhitespace L)"
  using tokenizeWhitespace_loop_advances [of L "[]"]
  by (auto simp: tokenizeWhitespace_def push_def split: prod.splits)

lemma tokenizeIdentifierOrKeyword_input: "input (tokenizeIdentifierOrKeyword L) = input L"
  using tokenizeIdentifier_loop_input [of L "[]"]
  by (auto simp: tokenizeIdentifierOrKeyword_def push_def split: prod.splits)

lemma tokenizeIdentifierOrKeyword_advances:
  "isLetter (peek L) \<Longrightarrow> Lexer.position L < Lexer.position (tokenizeIdentifierOrKeyword L)"
  using tokenizeIdentifier_loop_advances [of L "[]"]
  by (auto simp: tokenizeIdentifierOrKeyword_def isIdentifierChar_def push_def split: prod.splits)

lemma tokenizeString_input: "input (tokenizeString L) = input L"
  using tokenizeString_loop_input [of "peek L" "advance L" "[]"]
  by (auto simp: tokenizeString_def push_def advance_def split: prod.splits)

lemma tokenizeString_advances: "Lexer.position L < Lexer.position (tokenizeString L)"
  using tokenizeString_loop_position [of "advance L" "peek L" "[]"]
  by (auto simp: tokenizeString_def push_def advance_def split: prod.splits)

text \<open>
  The main loop. It returns \<open>this.tokens\<close>, or the error thrown at a character that
  starts nothing.
\<close>

function tokenize :: "Lexer \<Rightarrow> error + Token list" where
  "tokenize L =
     (if Lexer.position L < length (input L) then
        (let char = peek L in
         if isWhitespace char then tokenize (tokenizeWhitespace L)
         else if isLetter char then tokenize (tokenizeIdentifierOrKeyword L)
         else if char = Some (CHR 0x27) \<or> char = Some (CHR 0x22) then tokenize (tokenizeString L)
         else if symbol_includes char
           then tokenize (advance (push \<lparr>Token.type = SYMBOL, value = show_char char\<rparr> L))
         else Inl (Error (''Unexpected character: '' @ show_char char)))
      else Inr (Lexer.tokens L))"
  by pat_completeness auto
termination
proof (relation "measure (\<lambda>L. length (input L) - Lexer.position L)")
  show "wf (measure (\<lambda>L. length (input L) - Lexer.position L))" by simp
next
  fix L :: Lexer and char
  assume "Lexer.position L < length (input L)" "char = peek L" "isWhitespace char"
  then show "(tokenizeWhitespace L, L) \<in> measure (\<lambda>L. length (input L) - Lexer.position L)"
    using tokenizeWhitespace_advances [of L] by (simp add: tokenizeWhitespace_input)
next
  fix L :: Lexer and char
  assume "Lexer.position L < length (input L)" "char = peek L" "isLetter char"
  then show "(tokenizeIdentifierOrKeyword L, L)
               \<in> measure (\<lambda>L. length (input L) - Lexer.position L)"
    using tokenizeIdentifierOrKeyword_advances [of L]
    by (simp add: tokenizeIdentifierOrKeyword_input)
next
  fix L :: Lexer
  assume "Lexer.position L < length (input L)"
  then show "(tokenizeString L, L) \<in> measure (\<lambda>L. length (input L) - Lexer.position L)"
    using tokenizeString_advances [of L] by (simp add: tokenizeString_input)
next
  fix L :: Lexer and char
  assume "Lexer.position L < length (input L)"
  then show "(advance (push \<lparr>Token.type = SYMBOL, value = show_char char\<rparr> L), L)
               \<in> measure (\<lambda>L. length (input L) - Lexer.position L)"
    by (simp add: advance_def push_def)
qed

declare tokenize.simps [simp del]

definition lex_tokens :: "Lexer \<Rightarrow> error + Token list" where
  "lex_tokens L = tokenize L"

section \<open>The parser (Parser.ts)\<close>

record Parser =
  tokens :: "Token list"
  position :: nat
  ast :: AST

text \<open>The constructor: the cursor at 0 and an AST with no table.\<close>

definition new_Parser :: "Token list \<Rightarrow> Parser" where
  "new_Parser toks = \<lparr>Parser.tokens = toks, Parser.position = 0, ast = \<lparr>tables = []\<rparr>\<rparr>"

text \<open>
  \<open>peek\<close> and \<open>advance\<close> of the parser; \<open>this.tokens[this.position]\<close> is
  \<open>undefined\<close> past the end, and \<open>advance\<close> moves the cursor even there. The
  optional chains \<open>this.peek()?.type\<close> and \<open>this.peek()?.value\<close> are \<open>peek_type\<close>
  and \<open>peek_value\<close>.
\<close>

definition peek_token :: "Parser \<Rightarrow> Token option" where
  "peek_token P = (if Parser.position P < length (Parser.tokens P)
                   then Some (Parser.tokens P ! Parser.position P) else None)"

definition peek_type :: "Parser \<Rightarrow> TokenType option" where
  "peek_type P = map_option Token.type (peek_token P)"

definition peek_value :: "Parser \<Rightarrow> string option" where
  "peek_value P = map_option Token.value (peek_token P)"

definition advance_token :: "Parser \<Rightarrow> Token option \<times> Parser" where
  "advance_token P = (peek_token P, P\<lparr>Parser.position := Parser.position P + 1\<rparr>)"

function skipWhitespace :: "Parser \<Rightarrow> Parser" where
  "skipWhitespace P =
     (if Parser.position P < length (Parser.tokens P) \<and> peek_type P = Some WHITESPACE
      then skipWhitespace (snd (advance_token P))
      else P)"
  by pat_completeness auto
termination
  by (relation "measure (\<lambda>P. length (Parser.tokens P) - Parser.position P)")
     (auto simp: advance_token_def)

declare skipWhitespace.simps [simp del]

text \<open>
  The message of \<open>expect\<close>, the template
  \<open>Expected ${type} '${value}', but got ${token?.type} '${token?.value}'\<close>, and the
  message of the two \<open>Unexpected token\<close> branches.
\<close>

fun show_type :: "TokenType option \<Rightarrow> string" where
  "show_type None = ''undefined''"
| "show_type (Some ty) = show_TokenType ty"

definition quoted :: "string \<Rightarrow> string" where
  "quoted s = [CHR 0x27] @ s @ [CHR 0x27]"

definition expect_message :: "TokenType \<Rightarrow> string option \<Rightarrow> Token option \<Rightarrow> string" where
  "expect_message ty v token =
     ''Expected '' @ show_TokenType ty @ '' '' @ quoted (show_string v) @ '', but got ''
       @ show_type (map_option Token.type token) @ '' ''
       @ quoted (show_string (map_option Token.value token))"

definition unexpected_message :: "Parser \<Rightarrow> string" where
  "unexpected_message P =
     ''Unexpected token '' @ show_type (peek_type P) @ '' '' @ quoted (show_string (peek_value P))"

text \<open>
  \<open>expect\<close>; its second argument is optional. In the test \<open>value && ...\<close> a
  value counts when it is there and is not the empty string.
\<close>

fun truthy :: "string option \<Rightarrow> bool" where
  "truthy None = False"
| "truthy (Some s) = (s \<noteq> [])"

definition expect :: "TokenType \<Rightarrow> string option \<Rightarrow> Parser \<Rightarrow> error + (Token \<times> Parser)" where
  "expect ty v P =
     (case advance_token (skipWhitespace P) of
        (token, P') \<Rightarrow>
          (case token of
             None \<Rightarrow> Inl (Error (expect_message ty v token))
           | Some t \<Rightarrow>
               if Token.type t \<noteq> ty \<or> (truthy v \<and> Some (Token.value t) \<noteq> v)
               then Inl (Error (expect_message ty v token))
               else Inr (t, P')))"

text \<open>
  \<open>parseConstraints\<close> pushes onto the array it is given: the model takes the
  array and returns it grown.
\<close>

function parseConstraints_loop :: "string list \<Rightarrow> Parser \<Rightarrow> string list \<times> Parser" where
  "parseConstraints_loop cs P =
     (case peek_token P of
        None \<Rightarrow> (cs, P)
      | Some t \<Rightarrow>
          if Token.value t \<noteq> '']'' then
            (let P1 = snd (advance_token P);
                 P2 = (if peek_value P1 = Some '','' then snd (advance_token P1) else P1)
             in parseConstraints_loop (cs @ [Token.value t]) P2)
          else (cs, P))"
  by pat_completeness auto
termination
  by (relation "measure (\<lambda>(cs, P). length (Parser.tokens P) - Parser.position P)")
     (auto simp: advance_token_def peek_token_def Let_def split: if_splits)

declare parseConstraints_loop.simps [simp del]

definition parseConstraints :: "string list \<Rightarrow> Parser \<Rightarrow> error + (string list \<times> Parser)" where
  "parseConstraints cs P =
     (case expect SYMBOL (Some ''['') P of
        Inl e \<Rightarrow> Inl e
      | Inr (t1, P1) \<Rightarrow>
          (case parseConstraints_loop cs P1 of
             (cs', P2) \<Rightarrow>
               (case expect SYMBOL (Some '']'') P2 of
                  Inl e \<Rightarrow> Inl e
                | Inr (t2, P3) \<Rightarrow> Inr (cs', P3))))"

definition parseNote :: "Parser \<Rightarrow> error + (string \<times> Parser)" where
  "parseNote P =
     (case expect KEYWORD (Some ''Note'') (skipWhitespace P) of
        Inl e \<Rightarrow> Inl e
      | Inr (t1, P1) \<Rightarrow>
          (case expect SYMBOL (Some '':'') P1 of
             Inl e \<Rightarrow> Inl e
           | Inr (t2, P2) \<Rightarrow>
               (case expect STRING None P2 of
                  Inl e \<Rightarrow> Inl e
                | Inr (noteToken, P3) \<Rightarrow> Inr (Token.value noteToken, P3))))"

text \<open>
  \<open>parseColumn\<close>. The two optional parts look at the token under the cursor as it
  is, with no \<open>skipWhitespace\<close> before either test.
\<close>

definition parseColumn_constraints :: "Parser \<Rightarrow> error + (string list \<times> Parser)" where
  "parseColumn_constraints P =
     (if peek_value P = Some ''['' then parseConstraints [] P else Inr ([], P))"

definition parseColumn_note :: "Parser \<Rightarrow> error + (string option \<times> Parser)" where
  "parseColumn_note P =
     (if peek_type P = Some KEYWORD \<and> peek_value P = Some ''note'' then
        (case expect SYMBOL (Some '':'') (snd (advance_token P)) of
           Inl e \<Rightarrow> Inl e
         | Inr (t1, P1) \<Rightarrow>
             (case expect STRING None P1 of
                Inl e \<Rightarrow> Inl e
              | Inr (t2, P2) \<Rightarrow> Inr (Some (Token.value t2), P2)))
      else Inr (None, P))"

definition parseColumn :: "Parser \<Rightarrow> error + (ColumnNode \<times> Parser)" where
  "parseColumn P =
     (case expect IDENTIFIER None (skipWhitespace P) of
        Inl e \<Rightarrow> Inl e
      | Inr (nameToken, P1) \<Rightarrow>
          (case expect KEYWORD None P1 of
             Inl e \<Rightarrow> Inl e
           | Inr (dataTypeToken, P2) \<Rightarrow>
               (case parseColumn_constraints P2 of
                  Inl e \<Rightarrow> Inl e
                | Inr (cs, P3) \<Rightarrow>
                    (case parseColumn_note P3 of
                       Inl e \<Rightarrow> Inl e
                     | Inr (nt, P4) \<Rightarrow>
                         Inr (\<lparr>ColumnNode.type = ''Column'',
                               ColumnNode.name = Token.value nameToken,
                               dataType = Token.value dataTypeToken,
                               constraints = cs,
                               ColumnNode.note = nt\<rparr>, P4)))))"

text \<open>
  No production changes the token array, and each one that returns has moved the
  cursor forward: the loops over productions end.
\<close>

lemma skipWhitespace_tokens: "Parser.tokens (skipWhitespace P) = Parser.tokens P"
proof (induction P rule: skipWhitespace.induct)
  case (1 P)
  then show ?case
    by (subst skipWhitespace.simps) (simp add: advance_token_def)
qed

lemma skipWhitespace_position: "Parser.position P \<le> Parser.position (skipWhitespace P)"
proof (induction P rule: skipWhitespace.induct)
  case (1 P)
  then show ?case
    by (subst skipWhitespace.simps) (auto simp: advance_token_def)
qed

lemma expect_moves:
  assumes "expect ty v P = Inr (t, P')"
  shows "Parser.tokens P' = Parser.tokens P \<and> Parser.position P < Parser.position P'"
  using assms skipWhitespace_tokens [of P] skipWhitespace_position [of P]
  by (auto simp: expect_def advance_token_def split: option.splits if_splits)

lemma parseConstraints_loop_tokens:
  "Parser.tokens (snd (parseConstraints_loop cs P)) = Parser.tokens P"
proof (induction cs P rule: parseConstraints_loop.induct)
  case (1 cs P)
  then show ?case
    by (subst parseConstraints_loop.simps)
       (simp add: advance_token_def Let_def split: option.splits)
qed

lemma parseConstraints_loop_position:
  "Parser.position P \<le> Parser.position (snd (parseConstraints_loop cs P))"
proof (induction cs P rule: parseConstraints_loop.induct)
  case (1 cs P)
  show ?case
  proof (cases "peek_token P")
    case None
    then show ?thesis by (subst parseConstraints_loop.simps) simp
  next
    case (Some t)
    show ?thesis
    proof (cases "Token.value t = '']''")
      case True
      with Some show ?thesis by (subst parseConstraints_loop.simps) simp
    next
      case False
      define P1 where "P1 = snd (advance_token P)"
      define P2 where "P2 = (if peek_value P1 = Some '','' then snd (advance_token P1) else P1)"
      have step: "parseConstraints_loop cs P = parseConstraints_loop (cs @ [Token.value t]) P2"
        using Some False by (subst parseConstraints_loop.simps) (simp add: P1_def P2_def Let_def)
      have "Parser.position P2
              \<le> Parser.position (snd (parseConstraints_loop (cs @ [Token.value t]) P2))"
        using "1.IH" [OF Some False P1_def P2_def] .
      moreover have "Parser.position P \<le> Parser.position P2"
        by (simp add: P1_def P2_def advance_token_def)
      ultimately show ?thesis by (simp add: step)
    qed
  qed
qed

lemma parseConstraints_moves:
  assumes "parseConstraints cs P = Inr (cs', P')"
  shows "Parser.tokens P' = Parser.tokens P \<and> Parser.position P < Parser.position P'"
proof -
  from assms obtain t1 P1 where e1: "expect SYMBOL (Some ''['') P = Inr (t1, P1)"
    by (auto simp: parseConstraints_def split: sum.splits)
  obtain cs2 P2 where l: "parseConstraints_loop cs P1 = (cs2, P2)"
    by (cases "parseConstraints_loop cs P1")
  from assms e1 l obtain t2 where e2: "expect SYMBOL (Some '']'') P2 = Inr (t2, P')"
    by (auto simp: parseConstraints_def split: sum.splits)
  from l have "Parser.tokens P2 = Parser.tokens P1" "Parser.position P1 \<le> Parser.position P2"
    using parseConstraints_loop_tokens [of cs P1] parseConstraints_loop_position [of P1 cs]
    by simp_all
  with expect_moves [OF e1] expect_moves [OF e2] show ?thesis by simp
qed

lemma parseNote_moves:
  assumes "parseNote P = Inr (s, P')"
  shows "Parser.tokens P' = Parser.tokens P \<and> Parser.position P < Parser.position P'"
proof -
  from assms obtain t1 P1 t2 P2 t3 where
    e1: "expect KEYWORD (Some ''Note'') (skipWhitespace P) = Inr (t1, P1)" and
    e2: "expect SYMBOL (Some '':'') P1 = Inr (t2, P2)" and
    e3: "expect STRING None P2 = Inr (t3, P')"
    by (auto simp: parseNote_def split: sum.splits)
  from expect_moves [OF e1] expect_moves [OF e2] expect_moves [OF e3]
    skipWhitespace_tokens [of P] skipWhitespace_position [of P]
  show ?thesis by simp
qed

lemma parseColumn_constraints_moves:
  assumes "parseColumn_constraints P = Inr (cs, P')"
  shows "Parser.tokens P' = Parser.tokens P \<and> Parser.position P \<le> Parser.position P'"
  using assms parseConstraints_moves [of "[]" P cs P']
  by (auto simp: parseColumn_constraints_def split: if_splits)

lemma parseColumn_note_moves:
  assumes "parseColumn_note P = Inr (nt, P')"
  shows "Parser.tokens P' = Parser.tokens P \<and> Parser.position P \<le> Parser.position P'"
proof (cases "peek_type P = Some KEYWORD \<and> peek_value P = Some ''note''")
  case False
  with assms show ?thesis by (auto simp: parseColumn_note_def)
next
  case True
  with assms obtain t1 P1 t2 where
    e1: "expect SYMBOL (Some '':'') (snd (advance_token P)) = Inr (t1, P1)" and
    e2: "expect STRING None P1 = Inr (t2, P')"
    by (auto simp: parseColumn_note_def split: sum.splits)
  from expect_moves [OF e1] expect_moves [OF e2] show ?thesis
    by (simp add: advance_token_def)
qed

lemma parseColumn_moves:
  assumes "parseColumn P = Inr (c, P')"
  shows "Parser.tokens P' = Parser.tokens P \<and> Parser.position P < Parser.position P'"
proof -
  from assms obtain t1 P1 t2 P2 cs P3 nt where
    e1: "expect IDENTIFIER None (skipWhitespace P) = Inr (t1, P1)" and
    e2: "expect KEYWORD None P1 = Inr (t2, P2)" and
    e3: "parseColumn_constraints P2 = Inr (cs, P3)" and
    e4: "parseColumn_note P3 = Inr (nt, P')"
    by (auto simp: parseColumn_def split: sum.splits)
  from expect_moves [OF e1] expect_moves [OF e2] parseColumn_constraints_moves [OF e3]
    parseColumn_note_moves [OF e4] skipWhitespace_tokens [of P] skipWhitespace_position [of P]
  show ?thesis by simp
qed

text \<open>
  The body loop of \<open>parseTable\<close>, on the local \<open>columns\<close>, \<open>note\<close> and
  \<open>constraints\<close>.
\<close>

function parseTable_loop ::
  "ColumnNode list \<Rightarrow> string option \<Rightarrow> string list \<Rightarrow> Parser
     \<Rightarrow> error + ((ColumnNode list \<times> string option \<times> string list) \<times> Parser)" where
  "parseTable_loop cols nt cs P =
     (if peek_token P \<noteq> None \<and> peek_value P \<noteq> Some ''}'' then
        (let P1 = skipWhitespace P in
         if peek_type P1 = Some IDENTIFIER then
           (case parseColumn P1 of
              Inl e \<Rightarrow> Inl e
            | Inr (c, P2) \<Rightarrow> parseTable_loop (cols @ [c]) nt cs P2)
         else if peek_type P1 = Some KEYWORD \<and> peek_value P1 = Some ''Note'' then
           (case parseNote P1 of
              Inl e \<Rightarrow> Inl e
            | Inr (s, P2) \<Rightarrow> parseTable_loop cols (Some s) cs P2)
         else if peek_type P1 = Some SYMBOL \<and> peek_value P1 = Some ''['' then
           (case parseConstraints cs P1 of
              Inl e \<Rightarrow> Inl e
            | Inr (cs', P2) \<Rightarrow> parseTable_loop cols nt cs' P2)
         else if peek_value P1 = Some ''}'' then Inr ((cols, nt, cs), P1)
         else Inl (Error (unexpected_message P1)))
      else Inr ((cols, nt, cs), P))"
  by pat_completeness auto
termination
proof (relation "measure (\<lambda>(cols, nt, cs, P). length (Parser.tokens P) - Parser.position P)")
  show "wf (measure (\<lambda>(cols, nt, cs, P). length (Parser.tokens P) - Parser.position P))"
    by simp
next
  fix cols :: "ColumnNode list" and nt :: "string option" and cs :: "string list"
    and P P1 x c P2
  assume "peek_token P \<noteq> None \<and> peek_value P \<noteq> Some ''}''" "P1 = skipWhitespace P"
    "parseColumn P1 = Inr x" "(c, P2) = x"
  then show "((cols @ [c], nt, cs, P2), cols, nt, cs, P)
      \<in> measure (\<lambda>(cols, nt, cs, P). length (Parser.tokens P) - Parser.position P)"
    using parseColumn_moves [of P1 c P2] skipWhitespace_tokens [of P] skipWhitespace_position [of P]
    by (auto simp: peek_token_def split: if_splits)
next
  fix cols :: "ColumnNode list" and nt :: "string option" and cs :: "string list"
    and P P1 x s P2
  assume "peek_token P \<noteq> None \<and> peek_value P \<noteq> Some ''}''" "P1 = skipWhitespace P"
    "parseNote P1 = Inr x" "(s, P2) = x"
  then show "((cols, Some s, cs, P2), cols, nt, cs, P)
      \<in> measure (\<lambda>(cols, nt, cs, P). length (Parser.tokens P) - Parser.position P)"
    using parseNote_moves [of P1 s P2] skipWhitespace_tokens [of P] skipWhitespace_position [of P]
    by (auto simp: peek_token_def split: if_splits)
next
  fix cols :: "ColumnNode list" and nt :: "string option" and cs :: "string list"
    and P P1 x cs' P2
  assume "peek_token P \<noteq> None \<and> peek_value P \<noteq> Some ''}''" "P1 = skipWhitespace P"
    "parseConstraints cs P1 = Inr x" "(cs', P2) = x"
  then show "((cols, nt, cs', P2), cols, nt, cs, P)
      \<in> measure (\<lambda>(cols, nt, cs, P). length (Parser.tokens P) - Parser.position P)"
    using parseConstraints_moves [of cs P1 cs' P2] skipWhitespace_tokens [of P]
      skipWhitespace_position [of P]
    by (auto simp: peek_token_def split: if_splits)
qed

declare parseTable_loop.simps [simp del]

text \<open>
  \<open>parseTable\<close>. The constraint list of the header and the lists met in the body
  go into the local \<open>constraints\<close>, which the returned node does not mention.
\<close>

definition parseTable_constraints :: "Parser \<Rightarrow> error + (string list \<times> Parser)" where
  "parseTable_constraints P =
     (if peek_value P = Some ''['' then parseConstraints [] P else Inr ([], P))"

definition parseTable :: "Parser \<Rightarrow> error + (TableNode \<times> Parser)" where
  "parseTable P =
     (case expect KEYWORD (Some ''Table'') (skipWhitespace P) of
        Inl e \<Rightarrow> Inl e
      | Inr (t1, P1) \<Rightarrow>
          (case expect IDENTIFIER None P1 of
             Inl e \<Rightarrow> Inl e
           | Inr (nameToken, P2) \<Rightarrow>
               (case parseTable_constraints (skipWhitespace P2) of
                  Inl e \<Rightarrow> Inl e
                | Inr (cs, P3) \<Rightarrow>
                    (case expect SYMBOL (Some ''{'') P3 of
                       Inl e \<Rightarrow> Inl e
                     | Inr (t2, P4) \<Rightarrow>
                         (case parseTable_loop [] None cs P4 of
                            Inl e \<Rightarrow> Inl e
                          | Inr ((cols, nt, cs'), P5) \<Rightarrow>
                              (case expect SYMBOL (Some ''}'') P5 of
                                 Inl e \<Rightarrow> Inl e
                               | Inr (t3, P6) \<Rightarrow>
                                   Inr (\<lparr>TableNode.type = ''Table'',
                                         TableNode.name = Token.value nameToken,
                                         columns = cols,
                                         TableNode.note = nt\<rparr>, P6)))))))"

lemma parseTable_loop_moves:
  "parseTable_loop cols nt cs P = Inr (r, P') \<Longrightarrow>
     Parser.tokens P' = Parser.tokens P \<and> Parser.position P \<le> Parser.position P'"
proof (induction cols nt cs P rule: parseTable_loop.induct)
  case (1 cols nt cs P)
  note skip = skipWhitespace_tokens [of P] skipWhitespace_position [of P]
  show ?case
  proof (cases "peek_token P \<noteq> None \<and> peek_value P \<noteq> Some ''}''")
    case False
    with "1.prems" show ?thesis by (subst (asm) parseTable_loop.simps) auto
  next
    case True
    define P1 where "P1 = skipWhitespace P"
    consider (col) "peek_type P1 = Some IDENTIFIER"
      | (nte) "peek_type P1 \<noteq> Some IDENTIFIER" "peek_type P1 = Some KEYWORD \<and> peek_value P1 = Some ''Note''"
      | (con) "peek_type P1 \<noteq> Some IDENTIFIER" "\<not> (peek_type P1 = Some KEYWORD \<and> peek_value P1 = Some ''Note'')"
          "peek_type P1 = Some SYMBOL \<and> peek_value P1 = Some ''[''"
      | (other) "peek_type P1 \<noteq> Some IDENTIFIER" "\<not> (peek_type P1 = Some KEYWORD \<and> peek_value P1 = Some ''Note'')"
          "\<not> (peek_type P1 = Some SYMBOL \<and> peek_value P1 = Some ''['')"
      by blast
    then show ?thesis
    proof cases
      case col
      with True "1.prems" obtain c P2 where
        c: "parseColumn P1 = Inr (c, P2)" and
        r: "parseTable_loop (cols @ [c]) nt cs P2 = Inr (r, P')"
        by (subst (asm) parseTable_loop.simps) (auto simp: P1_def Let_def split: sum.splits)
      from "1.IH"(1) [OF True P1_def col c refl r] parseColumn_moves [OF c] skip
      show ?thesis by (simp add: P1_def)
    next
      case nte
      with True "1.prems" obtain s P2 where
        c: "parseNote P1 = Inr (s, P2)" and
        r: "parseTable_loop cols (Some s) cs P2 = Inr (r, P')"
        by (subst (asm) parseTable_loop.simps) (auto simp: P1_def Let_def split: sum.splits)
      from "1.IH"(2) [OF True P1_def nte c refl r] parseNote_moves [OF c] skip
      show ?thesis by (simp add: P1_def)
    next
      case con
      with True "1.prems" obtain cs' P2 where
        c: "parseConstraints cs P1 = Inr (cs', P2)" and
        r: "parseTable_loop cols nt cs' P2 = Inr (r, P')"
        by (subst (asm) parseTable_loop.simps) (auto simp: P1_def Let_def split: sum.splits)
      from "1.IH"(3) [OF True P1_def con c refl r] parseConstraints_moves [OF c] skip
      show ?thesis by (simp add: P1_def)
    next
      case other
      with True "1.prems" have "P' = P1"
        by (subst (asm) parseTable_loop.simps) (auto simp: P1_def Let_def split: if_splits)
      with skip show ?thesis by (simp add: P1_def)
    qed
  qed
qed

lemma parseTable_moves:
  assumes "parseTable P = Inr (t, P')"
  shows "Parser.tokens P' = Parser.tokens P \<and> Parser.position P < Parser.position P'"
proof -
  from assms obtain t1 P1 where e1: "expect KEYWORD (Some ''Table'') (skipWhitespace P) = Inr (t1, P1)"
    by (auto simp: parseTable_def split: sum.splits)
  from assms e1 obtain t2 P2 where e2: "expect IDENTIFIER None P1 = Inr (t2, P2)"
    by (auto simp: parseTable_def split: sum.splits)
  from assms e1 e2 obtain cs P3 where e3: "parseTable_constraints (skipWhitespace P2) = Inr (cs, P3)"
    by (auto simp: parseTable_def split: sum.splits)
  from assms e1 e2 e3 obtain t4 P4 where e4: "expect SYMBOL (Some ''{'') P3 = Inr (t4, P4)"
    by (auto simp: parseTable_def split: sum.splits)
  from assms e1 e2 e3 e4 obtain r P5 where e5: "parseTable_loop [] None cs P4 = Inr (r, P5)"
    by (auto simp: parseTable_def split: sum.splits)
  from assms e1 e2 e3 e4 e5 obtain t6 where e6: "expect SYMBOL (Some ''}'') P5 = Inr (t6, P')"
    by (auto simp: parseTable_def split: sum.splits prod.splits)
  have c: "Parser.tokens P3 = Parser.tokens (skipWhitespace P2)
             \<and> Parser.position (skipWhitespace P2) \<le> Parser.position P3"
    using e3 parseConstraints_moves [of "[]" "skipWhitespace P2" cs P3]
    by (auto simp: parseTable_constraints_def split: if_splits)
  from expect_moves [OF e1] expect_moves [OF e2] c expect_moves [OF e4]
    parseTable_loop_moves [OF e5] expect_moves [OF e6]
    skipWhitespace_tokens [of P] skipWhitespace_position [of P]
    skipWhitespace_tokens [of P2] skipWhitespace_position [of P2]
  show ?thesis by simp
qed

text \<open>The top-level loop of \<open>parse\<close>, and \<open>parse\<close>, which returns \<open>this.ast\<close>.\<close>

function parse_loop :: "Parser \<Rightarrow> error + Parser" where
  "parse_loop P =
     (if Parser.position P < length (Parser.tokens P) then
        (let P1 = skipWhitespace P in
         if peek_type P1 = Some KEYWORD \<and> peek_value P1 = Some ''Table'' then
           (case parseTable P1 of
              Inl e \<Rightarrow> Inl e
            | Inr (t, P2) \<Rightarrow> parse_loop (P2\<lparr>ast := \<lparr>tables = tables (ast P2) @ [t]\<rparr>\<rparr>))
         else if peek_token P1 = None then Inr P1
         else Inl (Error (unexpected_message P1)))
      else Inr P)"
  by pat_completeness auto
termination
proof (relation "measure (\<lambda>P. length (Parser.tokens P) - Parser.position P)")
  show "wf (measure (\<lambda>P. length (Parser.tokens P) - Parser.position P))" by simp
next
  fix P P1 x t P2
  assume "Parser.position P < length (Parser.tokens P)" "P1 = skipWhitespace P"
    "parseTable P1 = Inr x" "(t, P2) = x"
  then show "(P2\<lparr>ast := \<lparr>tables = tables (ast P2) @ [t]\<rparr>\<rparr>, P)
      \<in> measure (\<lambda>P. length (Parser.tokens P) - Parser.position P)"
    using parseTable_moves [of P1 t P2] skipWhitespace_tokens [of P] skipWhitespace_position [of P]
    by auto
qed

declare parse_loop.simps [simp del]

definition parse :: "Parser \<Rightarrow> error + AST" where
  "parse P = (case parse_loop P of Inl e \<Rightarrow> Inl e | Inr P' \<Rightarrow> Inr (ast P'))"

text \<open>The pipeline of index.ts: a fresh lexer on the text, a fresh parser on its tokens.\<close>

definition parse_text :: "string \<Rightarrow> error + AST" where
  "parse_text inp =
     (case lex_tokens (new_Lexer inp) of
        Inl e \<Rightarrow> Inl e
      | Inr toks \<Rightarrow> parse (new_Parser toks))"

section \<open>The pipeline on concrete texts\<close>

text \<open>
  C5: the text \<open>Table t { id int }\<close> is tokenized and parsed without error, and the
  AST has exactly one table, named \<open>t\<close>, with no note and exactly one column, named
  \<open>id\<close>, of data type \<open>int\<close>, with no constraint and no note.
\<close>

theorem C5_single_column_table:
  "parse_text ''Table t { id int }'' =
     Inr \<lparr>tables =
       [\<lparr>TableNode.type = ''Table'', TableNode.name = ''t'',
         columns =
           [\<lparr>ColumnNode.type = ''Column'', ColumnNode.name = ''id'', dataType = ''int'',
             constraints = [], ColumnNode.note = None\<rparr>],
         TableNode.note = None\<rparr>]\<rparr>"
  by code_simp

text \<open>
  C1: on the column declaration \<open>id string [not null, unique]\<close> inside a table body
  the parser returns a column whose constraint sequence is empty, not
  \<open>["not", "null", "unique"]\<close>. After the data type \<open>parseColumn\<close> looks for \<open>[\<close>
  under the cursor, finds the whitespace token, and returns; the body loop of
  \<open>parseTable\<close> then reads the bracketed list into the table's own list, which is
  dropped.
\<close>

theorem C1_column_constraints_lost:
  "parse_text ''Table t { id string [not null, unique] }'' =
     Inr \<lparr>tables =
       [\<lparr>TableNode.type = ''Table'', TableNode.name = ''t'',
         columns =
           [\<lparr>ColumnNode.type = ''Column'', ColumnNode.name = ''id'', dataType = ''string'',
             constraints = [], ColumnNode.note = None\<rparr>],
         TableNode.note = None\<rparr>]\<rparr>"
  by code_simp

text \<open>
  C2: the text \<open>Table t { id int note: 'x' }\<close> follows the grammar sketch (a column
  with an inline note), and the parser raises an error on it. The lexer has no keyword
  \<open>note\<close>, so the word is an identifier; \<open>parseColumn\<close> tests for a keyword, returns
  the column, and the body loop starts a new column at \<open>note\<close>, whose data type is
  then the symbol \<open>:\<close>.
\<close>

theorem C2_inline_note_rejected:
  "parse_text (''Table t { id int note: '' @ quoted ''x'' @ '' }'') =
     Inl (Error (''Expected KEYWORD '' @ quoted ''undefined''
                   @ '', but got SYMBOL '' @ quoted '':''))"
  by code_simp

section \<open>Properties of the lexer\<close>

text \<open>The scanners only append tokens; the kinds they append are five of the eight.\<close>

lemma tokenizeWhitespace_loop_tokens:
  "Lexer.tokens (fst (tokenizeWhitespace_loop L val)) = Lexer.tokens L"
proof (induction L val rule: tokenizeWhitespace_loop.induct)
  case (1 L val)
  then show ?case
    by (subst tokenizeWhitespace_loop.simps) (simp add: advance_def)
qed

lemma tokenizeIdentifier_loop_tokens:
  "Lexer.tokens (fst (tokenizeIdentifier_loop L ident)) = Lexer.tokens L"
proof (induction L ident rule: tokenizeIdentifier_loop.induct)
  case (1 L ident)
  then show ?case
    by (subst tokenizeIdentifier_loop.simps) (simp add: advance_def)
qed

lemma tokenizeString_loop_tokens:
  "Lexer.tokens (fst (tokenizeString_loop q L str)) = Lexer.tokens L"
proof (induction q L str rule: tokenizeString_loop.induct)
  case (1 q L str)
  then show ?case
    by (subst tokenizeString_loop.simps) (simp add: advance_def)
qed

definition produced :: "Token \<Rightarrow> bool" where
  "produced t = (Token.type t \<in> {KEYWORD, IDENTIFIER, STRING, SYMBOL, WHITESPACE})"

lemma tokenizeWhitespace_tokens:
  "\<exists>v. Lexer.tokens (tokenizeWhitespace L) = Lexer.tokens L @ [\<lparr>Token.type = WHITESPACE, value = v\<rparr>]"
  using tokenizeWhitespace_loop_tokens [of L "[]"]
  by (auto simp: tokenizeWhitespace_def push_def split: prod.splits)

lemma tokenizeIdentifierOrKeyword_tokens:
  "\<exists>v. Lexer.tokens (tokenizeIdentifierOrKeyword L) = Lexer.tokens L @ [\<lparr>Token.type = KEYWORD, value = v\<rparr>]
     \<or> Lexer.tokens (tokenizeIdentifierOrKeyword L) = Lexer.tokens L @ [\<lparr>Token.type = IDENTIFIER, value = v\<rparr>]"
  using tokenizeIdentifier_loop_tokens [of L "[]"]
  by (auto simp: tokenizeIdentifierOrKeyword_def push_def split: prod.splits)

lemma tokenizeString_tokens:
  "\<exists>v. Lexer.tokens (tokenizeString L) = Lexer.tokens L @ [\<lparr>Token.type = STRING, value = v\<rparr>]"
  using tokenizeString_loop_tokens [of "peek L" "advance L" "[]"]
  by (auto simp: tokenizeString_def push_def advance_def split: prod.splits)

lemma tokenize_produced:
  "tokenize L = Inr toks \<Longrightarrow> \<forall>t\<in>set (Lexer.tokens L). produced t \<Longrightarrow> \<forall>t\<in>set toks. produced t"
proof (induction L rule: tokenize.induct)
  case (1 L)
  show ?case
  proof (cases "Lexer.position L < length (input L)")
    case False
    with "1.prems" show ?thesis by (subst (asm) tokenize.simps) auto
  next
    case True
    note pos = True
    consider (ws) "isWhitespace (peek L)"
      | (letter) "\<not> isWhitespace (peek L)" "isLetter (peek L)"
      | (quote) "\<not> isWhitespace (peek L)" "\<not> isLetter (peek L)"
          "peek L = Some (CHR 0x27) \<or> peek L = Some (CHR 0x22)"
      | (symbol) "\<not> isWhitespace (peek L)" "\<not> isLetter (peek L)"
          "\<not> (peek L = Some (CHR 0x27) \<or> peek L = Some (CHR 0x22))" "symbol_includes (peek L)"
      | (other) "\<not> isWhitespace (peek L)" "\<not> isLetter (peek L)"
          "\<not> (peek L = Some (CHR 0x27) \<or> peek L = Some (CHR 0x22))" "\<not> symbol_includes (peek L)"
      by blast
    then show ?thesis
    proof cases
      case ws
      with pos "1.prems"(1) have r: "tokenize (tokenizeWhitespace L) = Inr toks"
        by (subst (asm) tokenize.simps) simp
      have "\<forall>t\<in>set (Lexer.tokens (tokenizeWhitespace L)). produced t"
        using tokenizeWhitespace_tokens [of L] "1.prems"(2) by (auto simp: produced_def)
      from "1.IH"(1) [OF pos refl ws r this] show ?thesis .
    next
      case letter
      with pos "1.prems"(1) have r: "tokenize (tokenizeIdentifierOrKeyword L) = Inr toks"
        by (subst (asm) tokenize.simps) simp
      have "\<forall>t\<in>set (Lexer.tokens (tokenizeIdentifierOrKeyword L)). produced t"
        using tokenizeIdentifierOrKeyword_tokens [of L] "1.prems"(2) by (auto simp: produced_def)
      from "1.IH"(2) [OF pos refl letter r this] show ?thesis .
    next
      case quote
      with pos "1.prems"(1) have r: "tokenize (tokenizeString L) = Inr toks"
        by (subst (asm) tokenize.simps) (simp add: Let_def)
      have "\<forall>t\<in>set (Lexer.tokens (tokenizeString L)). produced t"
        using tokenizeString_tokens [of L] "1.prems"(2) by (auto simp: produced_def)
      from "1.IH"(3) [OF pos refl quote r this] show ?thesis .
    next
      case symbol
      let ?L' = "advance (push \<lparr>Token.type = SYMBOL, value = show_char (peek L)\<rparr> L)"
      from symbol pos "1.prems"(1) have r: "tokenize ?L' = Inr toks"
        by (subst (asm) tokenize.simps) (simp add: Let_def)
      have "\<forall>t\<in>set (Lexer.tokens ?L'). produced t"
        using "1.prems"(2) by (auto simp: produced_def advance_def push_def)
      from "1.IH"(4) [OF pos refl symbol r this] show ?thesis .
    next
      case other
      with pos "1.prems"(1) show ?thesis
        by (subst (asm) tokenize.simps) (simp add: Let_def)
    qed
  qed
qed

lemma tokenize_unexpected:
  assumes "Lexer.position L < length (input L)"
    and "\<not> isWhitespace (peek L)" and "\<not> isLetter (peek L)"
    and "peek L \<noteq> Some (CHR 0x27)" and "peek L \<noteq> Some (CHR 0x22)"
    and "\<not> symbol_includes (peek L)"
  shows "tokenize L = Inl (Error (''Unexpected character: '' @ show_char (peek L)))"
  using assms by (subst tokenize.simps) (simp add: Let_def)

lemma isDigit_other:
  assumes "isDigit (peek L)"
  shows "Lexer.position L < length (input L)" "\<not> isWhitespace (peek L)" "\<not> isLetter (peek L)"
    "peek L \<noteq> Some (CHR 0x27)" "peek L \<noteq> Some (CHR 0x22)" "\<not> symbol_includes (peek L)"
  using assms by (auto simp: peek_def split: if_splits)


lemma tokenizeString_loop_unterminated:
  assumes "q \<notin> set (drop (Lexer.position L) (input L))"
  shows "tokenizeString_loop (Some q) L str =
           (L\<lparr>Lexer.position := max (Lexer.position L) (length (input L))\<rparr>,
            str @ drop (Lexer.position L) (input L))"
  using assms
proof (induction "Some q" L str rule: tokenizeString_loop.induct)
  case (1 L str)
  show ?case
  proof (cases "Lexer.position L < length (input L)")
    case False
    then show ?thesis
      by (subst tokenizeString_loop.simps) (simp add: max_def)
  next
    case True
    then have d: "drop (Lexer.position L) (input L)
                    = input L ! Lexer.position L # drop (Suc (Lexer.position L)) (input L)"
      by (simp add: Cons_nth_drop_Suc)
    with "1.prems" have ne: "input L ! Lexer.position L \<noteq> q"
      and later: "q \<notin> set (drop (Lexer.position (advance L)) (input (advance L)))"
      by (auto simp: advance_def)
    from True ne have c: "peek L \<noteq> Some q \<and> Lexer.position L < length (input L)"
      by (simp add: peek_def)
    have "tokenizeString_loop (Some q) L str
            = tokenizeString_loop (Some q) (advance L) (str @ show_char (peek L))"
      using c by (subst tokenizeString_loop.simps) simp
    also have "\<dots> = ((advance L)\<lparr>Lexer.position :=
                        max (Lexer.position (advance L)) (length (input (advance L)))\<rparr>,
                     (str @ show_char (peek L))
                       @ drop (Lexer.position (advance L)) (input (advance L)))"
      using "1.hyps" [OF c later] .
    also have "\<dots> = (L\<lparr>Lexer.position := max (Lexer.position L) (length (input L))\<rparr>,
                     str @ drop (Lexer.position L) (input L))"
      using True d by (simp add: advance_def peek_def max_def)
    finally show ?thesis .
  qed
qed

lemma tokenize_at_end:
  "length (input L) \<le> Lexer.position L \<Longrightarrow> tokenize L = Inr (Lexer.tokens L)"
  by (subst tokenize.simps) simp

section \<open>Claims about the lexer\<close>

text \<open>
  C3, as the code has it: when the main loop stands on a character that is not
  whitespace, not a letter, not a quote and not one of \<open>{ } [ ] : , < >\<close>, the
  tokenizer fails at once with the error \<open>Unexpected character: c\<close>, which names the
  character and nothing else; no token sequence is returned.
\<close>

theorem C3_unexpected_character:
  assumes "peek L = Some c"
    and "\<not> isWhitespace (Some c)" and "\<not> isLetter (Some c)"
    and "c \<noteq> CHR 0x27" and "c \<noteq> CHR 0x22" and "c \<notin> set ''{}[]:,<>''"
  shows "tokenize L = Inl (Error (''Unexpected character: '' @ [c]))"
proof -
  from assms(1) have "Lexer.position L < length (input L)"
    by (simp add: peek_def split: if_splits)
  with assms show ?thesis
    using tokenize_unexpected [of L] by simp
qed

theorem C3_unexpected_character_witness:
  "peek (new_Lexer ''@'') = Some CHR ''@''
   \<and> \<not> isWhitespace (Some CHR ''@'') \<and> \<not> isLetter (Some CHR ''@'')
   \<and> CHR ''@'' \<noteq> CHR 0x27 \<and> CHR ''@'' \<noteq> CHR 0x22 \<and> CHR ''@'' \<notin> set ''{}[]:,<>''
   \<and> tokenize (new_Lexer ''@'') = Inl (Error ''Unexpected character: @'')"
  using C3_unexpected_character [of "new_Lexer ''@''" "CHR ''@''"]
  by (simp add: peek_def new_Lexer_def)

text \<open>
  The message does not tell the position: the same character at offset 0 of one input
  and at offset 2 of another gives the same error.
\<close>

theorem C3_position_counterexample:
  "lex_tokens (new_Lexer ''@'') = Inl (Error ''Unexpected character: @'')
   \<and> lex_tokens (new_Lexer ''a @'') = Inl (Error ''Unexpected character: @'')"
  by code_simp

text \<open>
  C7: when the main loop stands on a quote character and the same quote character does
  not occur again before the end of the input, the tokenizer raises no error: it appends
  one \<open>STRING\<close> token whose text is the input from just after the opening quote to its
  end, and returns the tokens. (\<open>L\<close> is any state of the loop: any input, cursor and
  tokens so far.)
\<close>

theorem C7_unterminated_string:
  assumes "peek L = Some q" and "q = CHR 0x27 \<or> q = CHR 0x22"
    and "q \<notin> set (drop (Lexer.position L + 1) (input L))"
  shows "tokenize L =
           Inr (Lexer.tokens L
                  @ [\<lparr>Token.type = STRING, value = drop (Lexer.position L + 1) (input L)\<rparr>])"
proof -
  from assms(1) have pos: "Lexer.position L < length (input L)"
    by (simp add: peek_def split: if_splits)
  have loop: "tokenizeString_loop (Some q) (advance L) []
                = ((advance L)\<lparr>Lexer.position :=
                      max (Lexer.position (advance L)) (length (input (advance L)))\<rparr>,
                   [] @ drop (Lexer.position (advance L)) (input (advance L)))"
    using assms(3) by (intro tokenizeString_loop_unterminated) (simp add: advance_def)
  have str: "tokenizeString L =
      L\<lparr>Lexer.position := Suc (max (Suc (Lexer.position L)) (length (input L))),
        Lexer.tokens := Lexer.tokens L
           @ [\<lparr>Token.type = STRING, value = drop (Suc (Lexer.position L)) (input L)\<rparr>]\<rparr>"
    using assms(1) loop by (simp add: tokenizeString_def advance_def push_def)
  have "tokenize L = tokenize (tokenizeString L)"
    using pos assms(1,2) by (subst tokenize.simps) (auto simp: Let_def)
  also have "\<dots> = Inr (Lexer.tokens (tokenizeString L))"
    by (rule tokenize_at_end) (simp add: str)
  finally show ?thesis by (simp add: str)
qed

theorem C7_unterminated_string_witness:
  "peek \<lparr>input = ''Note: '' @ [CHR 0x27] @ ''abc'', Lexer.position = 6, Lexer.tokens = []\<rparr>
     = Some (CHR 0x27)
   \<and> CHR 0x27 \<notin> set (drop (6 + 1) (''Note: '' @ [CHR 0x27] @ ''abc''))
   \<and> tokenize \<lparr>input = ''Note: '' @ [CHR 0x27] @ ''abc'', Lexer.position = 6, Lexer.tokens = []\<rparr>
     = Inr [\<lparr>Token.type = STRING, value = ''abc''\<rparr>]"
  using C7_unterminated_string
    [of "\<lparr>input = ''Note: '' @ [CHR 0x27] @ ''abc'', Lexer.position = 6, Lexer.tokens = []\<rparr>"
        "CHR 0x27"]
  by (simp add: peek_def)

text \<open>
  C9: two fresh lexers on the same text give the same tokens, index by index. A lexer
  is its three fields, all set by the constructor from the text alone, and the source has
  no variable outside the instance; so the result is a function of the text.
\<close>

theorem C9_lex_deterministic:
  assumes "lex_tokens (new_Lexer inp) = Inr ts1" and "lex_tokens (new_Lexer inp) = Inr ts2"
  shows "length ts1 = length ts2
         \<and> (\<forall>i<length ts1. Token.type (ts1 ! i) = Token.type (ts2 ! i)
                            \<and> Token.value (ts1 ! i) = Token.value (ts2 ! i))"
  using assms by simp

theorem C9_lex_deterministic_witness:
  "lex_tokens (new_Lexer ''id int'')
     = Inr [\<lparr>Token.type = IDENTIFIER, value = ''id''\<rparr>, \<lparr>Token.type = WHITESPACE, value = '' ''\<rparr>,
            \<lparr>Token.type = KEYWORD, value = ''int''\<rparr>]
   \<and> length [\<lparr>Token.type = IDENTIFIER, value = ''id''\<rparr>, \<lparr>Token.type = WHITESPACE, value = '' ''\<rparr>,
            \<lparr>Token.type = KEYWORD, value = ''int''\<rparr>] = 3"
proof -
  have l: "lex_tokens (new_Lexer ''id int'')
     = Inr [\<lparr>Token.type = IDENTIFIER, value = ''id''\<rparr>, \<lparr>Token.type = WHITESPACE, value = '' ''\<rparr>,
            \<lparr>Token.type = KEYWORD, value = ''int''\<rparr>]"
    by code_simp
  from C9_lex_deterministic [OF l l] l show ?thesis by simp
qed

text \<open>
  C10: every token of a successful tokenization is a keyword, an identifier, a string,
  a symbol or whitespace (so never a comment, a number or an error token); a digit where
  a token would start raises the error of the unexpected character, as in \<open>default: 1\<close>.
\<close>

theorem C10_token_kinds:
  "(lex_tokens (new_Lexer inp) = Inr toks \<longrightarrow>
      (\<forall>t\<in>set toks. Token.type t \<in> {KEYWORD, IDENTIFIER, STRING, SYMBOL, WHITESPACE}
                      \<and> Token.type t \<notin> {COMMENT, NUMBER, ERROR}))
   \<and> (isDigit (peek L) \<longrightarrow>
        tokenize L = Inl (Error (''Unexpected character: '' @ show_char (peek L))))
   \<and> lex_tokens (new_Lexer ''default: 1'') = Inl (Error ''Unexpected character: 1'')"
proof (intro conjI impI)
  assume "lex_tokens (new_Lexer inp) = Inr toks"
  then have "\<forall>t\<in>set toks. produced t"
    using tokenize_produced [of "new_Lexer inp" toks] by (simp add: lex_tokens_def new_Lexer_def)
  then show "\<forall>t\<in>set toks. Token.type t \<in> {KEYWORD, IDENTIFIER, STRING, SYMBOL, WHITESPACE}
                      \<and> Token.type t \<notin> {COMMENT, NUMBER, ERROR}"
    by (auto simp: produced_def)
next
  assume "isDigit (peek L)"
  then show "tokenize L = Inl (Error (''Unexpected character: '' @ show_char (peek L)))"
    by (intro tokenize_unexpected isDigit_other)
next
  show "lex_tokens (new_Lexer ''default: 1'') = Inl (Error ''Unexpected character: 1'')"
    by code_simp
qed

theorem C10_token_kinds_witness:
  "lex_tokens (new_Lexer ''a: b'')
     = Inr [\<lparr>Token.type = IDENTIFIER, value = ''a''\<rparr>, \<lparr>Token.type = SYMBOL, value = '':''\<rparr>,
            \<lparr>Token.type = WHITESPACE, value = '' ''\<rparr>, \<lparr>Token.type = IDENTIFIER, value = ''b''\<rparr>]
   \<and> isDigit (peek (new_Lexer ''1''))
   \<and> tokenize (new_Lexer ''1'') = Inl (Error ''Unexpected character: 1'')"
proof -
  have l: "lex_tokens (new_Lexer ''a: b'')
     = Inr [\<lparr>Token.type = IDENTIFIER, value = ''a''\<rparr>, \<lparr>Token.type = SYMBOL, value = '':''\<rparr>,
            \<lparr>Token.type = WHITESPACE, value = '' ''\<rparr>, \<lparr>Token.type = IDENTIFIER, value = ''b''\<rparr>]"
    by code_simp
  have d: "isDigit (peek (new_Lexer ''1''))"
    by (simp add: peek_def new_Lexer_def)
  from C10_token_kinds [of "''a: b''" "[\<lparr>Token.type = IDENTIFIER, value = ''a''\<rparr>,
      \<lparr>Token.type = SYMBOL, value = '':''\<rparr>, \<lparr>Token.type = WHITESPACE, value = '' ''\<rparr>,
      \<lparr>Token.type = IDENTIFIER, value = ''b''\<rparr>]" "new_Lexer ''1''"] l d
  show ?thesis by (simp add: peek_def new_Lexer_def)
qed

end
